theory Spec2Isabelle
  imports Main
begin

section \<open>Strings\<close>

text \<open>
  A JavaScript string is modelled as a \<^typ>\<open>string\<close> whose characters are its code units;
  the model covers the strings whose code units are all below 256.  Among these the line
  terminators of the regular-expression engine are line feed and carriage return, and the
  white space of \<^verbatim>\<open>\s\<close> and of \<^verbatim>\<open>String.prototype.trim\<close> is tab, line feed, vertical tab,
  form feed, carriage return, space and no-break space.
\<close>

definition is_line_terminator :: "char \<Rightarrow> bool" where
  "is_line_terminator c \<longleftrightarrow> c = CHR 0x0A \<or> c = CHR 0x0D"

definition is_space :: "char \<Rightarrow> bool" where
  "is_space c \<longleftrightarrow> c \<in> {CHR 0x09, CHR 0x0A, CHR 0x0B, CHR 0x0C, CHR 0x0D, CHR 0x20, CHR 0xA0}"

definition trim :: "string \<Rightarrow> string" where
  "trim s = rev (dropWhile is_space (rev (dropWhile is_space s)))"

text \<open>Decimal rendering of a number inside a template literal.\<close>

fun show_nat :: "nat \<Rightarrow> string" where
  "show_nat n =
     (if n < 10 then [''0123456789'' ! n]
      else show_nat (n div 10) @ [''0123456789'' ! (n mod 10)])"

section \<open>Data model (models/ebook.model.ts and the service's TocStructure)\<close>

text \<open>
  An entry of \<^verbatim>\<open>TocStructure.chapters\<close> has a title and sections; a \<^verbatim>\<open>Chapter\<close> is such an
  entry extended by its content, which is how \<^verbatim>\<open>{ ...chapterSpec, content }\<close> builds it.
  The fields \<^verbatim>\<open>title\<close> and \<^verbatim>\<open>chapters\<close> of \<^verbatim>\<open>TocStructure\<close> and of \<^verbatim>\<open>Ebook\<close> carry a prefix
  to keep them apart.  \<^verbatim>\<open>generateEbook\<close> tests \<^verbatim>\<open>!toc.chapters\<close>, so the chapter list of a
  parsed outline may be absent.  The interface declares \<^verbatim>\<open>content\<close> a string; what the
  orchestrator stores there is the value \<^verbatim>\<open>generateChapterContent\<close> resolved to, which is
  \<^verbatim>\<open>undefined\<close> (here \<open>None\<close>) when the provider's response carried no text.
\<close>

record ChapterSpec =
  title :: string
  sections :: "string list"

record Chapter = ChapterSpec +
  content :: "string option"

record TocStructure =
  toc_title :: string
  toc_chapters :: "ChapterSpec list option"

record Ebook =
  ebook_title :: string
  ebook_chapters :: "Chapter list"

datatype EbookState = Idle | Generating | Completed | Error | Exporting

datatype FontSize = Sm | Base | Lg | Xl

record Progress =
  current :: nat
  total :: nat
  message :: string

text \<open>The element behind \<^verbatim>\<open>@ViewChild('ebookContainer')\<close>: its inline width and whether it
  carries the class \<^verbatim>\<open>exporting-pdf\<close>.\<close>

record Container =
  style_width :: string
  exporting_pdf :: bool

text \<open>A call of a method of the content provider, as the orchestrator issues it, and its
  completion.\<close>

datatype ProviderEvent =
    Outline_call string
  | Outline_done
  | Chapter_call string string "string list"
  | Chapter_done

text \<open>
  The state of the component together with the service it injects.  \<open>genAI\<close> tells whether
  the constructor of the service built the client; \<open>error\<close> is the signal
  \<^verbatim>\<open>GeminiService.error\<close>, which the component reads under the name \<^verbatim>\<open>serviceError\<close>.
  Three fields are bookkeeping of the model: \<open>effectDirty\<close> holds when the effect registered
  in the component's constructor is scheduled to run, \<open>calls\<close> lists the provider calls made
  so far, and \<open>saved\<close> lists the file names handed to \<^verbatim>\<open>doc.save\<close>.
\<close>

record AppComponent =
  genAI :: bool
  error :: "string option"
  ebookState :: EbookState
  generationProgress :: Progress
  ebook :: "Ebook option"
  ebookTopic :: string
  componentError :: "string option"
  fontSize :: FontSize
  ebookContainer :: "Container option"
  effectDirty :: bool
  calls :: "ProviderEvent list"
  saved :: "string list"

section \<open>Signals, the effect, and runs\<close>

text \<open>
  Writing a signal with the value it already holds notifies nobody; any other write to
  \<open>error\<close> schedules the effect.  The effect body is
  \<^verbatim>\<open>if (this.serviceError()) { this.ebookState.set('error'); }\<close>; a string is truthy when
  it is not empty.
\<close>

definition set_error :: "string option \<Rightarrow> AppComponent \<Rightarrow> AppComponent" where
  "set_error v s = (if error s = v then s else s\<lparr>error := v, effectDirty := True\<rparr>)"

definition truthy :: "string option \<Rightarrow> bool" where
  "truthy v = (case v of None \<Rightarrow> False | Some m \<Rightarrow> m \<noteq> [])"

definition serviceErrorEffect :: "AppComponent \<Rightarrow> AppComponent" where
  "serviceErrorEffect s = (if truthy (error s) then s\<lparr>ebookState := Error\<rparr> else s)"

definition flushEffects :: "AppComponent \<Rightarrow> AppComponent" where
  "flushEffects s =
     (if effectDirty s then serviceErrorEffect (s\<lparr>effectDirty := False\<rparr>) else s)"

text \<open>
  A run is the current state with the states it went through before, newest first; every
  write of the source is one \<open>step\<close>.  The framework runs a scheduled effect
  asynchronously: not inside the write that schedules it, but at a later point at which the
  code of the component is suspended in an \<^verbatim>\<open>await\<close> or has returned.  At which of these
  points it does so is up to the scheduler of the framework and is a parameter of the model.
\<close>

type_synonym run = "AppComponent \<times> AppComponent list"

definition step :: "(AppComponent \<Rightarrow> AppComponent) \<Rightarrow> run \<Rightarrow> run" where
  "step f r = (f (fst r), fst r # snd r)"

definition log_call :: "ProviderEvent \<Rightarrow> run \<Rightarrow> run" where
  "log_call ev r = ((fst r)\<lparr>calls := calls (fst r) @ [ev]\<rparr>, snd r)"

definition await :: "bool \<Rightarrow> run \<Rightarrow> run" where
  "await fl r = (if fl then step flushEffects r else r)"

definition states :: "run \<Rightarrow> AppComponent list" where
  "states r = rev (fst r # snd r)"

section \<open>GeminiService (services/gemini.service.ts)\<close>

text \<open>What the call of the hosted model does: it throws, or it returns a value.  For the
  outline the value is what \<^verbatim>\<open>JSON.parse\<close> makes of the response text (a malformed text
  throws inside the same \<^verbatim>\<open>try\<close>, and so does \<^verbatim>\<open>response.text.trim()\<close> on a response without
  text); for a chapter it is \<^verbatim>\<open>response.text\<close>, a getter of the client library that yields
  \<^verbatim>\<open>undefined\<close>, here \<open>None\<close>, when the response has no text part.  \<^verbatim>\<open>generateChapterContent\<close>
  returns that value as it is, so its result is a string or \<^verbatim>\<open>undefined\<close>.\<close>

datatype 'a outcome = Throws | Returns 'a

definition api_key_missing :: string where
  "api_key_missing = ''API key for Google Gemini is not configured.''"

definition toc_failed :: string where
  "toc_failed = ''Failed to generate the table of contents. Please check the console for details.''"

definition chapter_failed :: "string \<Rightarrow> string" where
  "chapter_failed chapterTitle = ''Failed to generate content for chapter: '' @ chapterTitle @ ''.''"

definition chapter_placeholder :: string where
  "chapter_placeholder = ''Error generating content for this chapter.''"

definition generateTableOfContents ::
  "bool \<Rightarrow> TocStructure option outcome \<Rightarrow> string \<Rightarrow> run \<Rightarrow> TocStructure option \<times> run" where
  "generateTableOfContents fl api topic r0 =
     (let r1 = log_call (Outline_call topic) r0 in
      if \<not> genAI (fst r1) then (None, log_call Outline_done r1)
      else
        let r2 = step (set_error None) r1;
            r3 = await fl r2
        in case api of
             Returns toc \<Rightarrow> (toc, log_call Outline_done r3)
           | Throws \<Rightarrow> (None, log_call Outline_done (step (set_error (Some toc_failed)) r3)))"

definition generateChapterContent ::
  "bool \<Rightarrow> string option outcome \<Rightarrow> string \<Rightarrow> string \<Rightarrow> string list \<Rightarrow> run
     \<Rightarrow> string option \<times> run" where
  "generateChapterContent fl api topic chapterTitle sects r0 =
     (let r1 = log_call (Chapter_call topic chapterTitle sects) r0 in
      if \<not> genAI (fst r1) then (Some [], log_call Chapter_done r1)
      else
        let r2 = step (set_error None) r1;
            r3 = await fl r2
        in case api of
             Returns text \<Rightarrow> (text, log_call Chapter_done r3)
           | Throws \<Rightarrow>
               (Some chapter_placeholder,
                log_call Chapter_done (step (set_error (Some (chapter_failed chapterTitle))) r3)))"

section \<open>AppComponent (app.component.ts)\<close>

text \<open>The component as its field initialisers and the two constructors leave it: the
  service sets its error when the API key is missing or empty, and the effect is scheduled
  for its first run.\<close>

definition initial :: "string option \<Rightarrow> AppComponent" where
  "initial apiKey =
     \<lparr> genAI = truthy apiKey,
       error = (if truthy apiKey then None else Some api_key_missing),
       ebookState = Idle,
       generationProgress = \<lparr> current = 0, total = 0, message = [] \<rparr>,
       ebook = None,
       ebookTopic = [],
       componentError = None,
       fontSize = Base,
       ebookContainer = None,
       effectDirty = True,
       calls = [],
       saved = [] \<rparr>"

definition setFontSize :: "FontSize \<Rightarrow> AppComponent \<Rightarrow> AppComponent" where
  "setFontSize size' s = s\<lparr>fontSize := size'\<rparr>"

definition fontSizeClass :: "AppComponent \<Rightarrow> string" where
  "fontSizeClass s =
     (case fontSize s of Sm \<Rightarrow> ''text-sm'' | Base \<Rightarrow> ''text-base'' | Lg \<Rightarrow> ''text-lg''
      | Xl \<Rightarrow> ''text-xl'')"

text \<open>The places where \<^verbatim>\<open>generateEbook\<close> is suspended: inside and after the outline call,
  inside and after the call for the chapter with the given index.\<close>

datatype suspension = Toc_call | Toc_return | Chap_call nat | Chap_return nat

text \<open>What the world outside does during one call of \<^verbatim>\<open>generateEbook\<close>: the outcome of
  the outline request, the outcome of the request for each chapter index, and the
  suspension points at which the scheduled effect is run.\<close>

record world =
  toc_response :: "TocStructure option outcome"
  chapter_response :: "nat \<Rightarrow> string option outcome"
  flush_at :: "suspension \<Rightarrow> bool"

definition chapter_message :: "nat \<Rightarrow> nat \<Rightarrow> string \<Rightarrow> string" where
  "chapter_message i totalChapters chapterTitle =
     ''Generating chapter '' @ show_nat (i + 1) @ ''/'' @ show_nat totalChapters @ '': ''
       @ chapterTitle"

fun chapter_loop ::
  "world \<Rightarrow> string \<Rightarrow> nat \<Rightarrow> nat \<Rightarrow> ChapterSpec list \<Rightarrow> Chapter list \<Rightarrow> run
     \<Rightarrow> Chapter list \<times> run" where
  "chapter_loop w topic totalChapters i [] generatedChapters r = (generatedChapters, r)"
| "chapter_loop w topic totalChapters i (chapterSpec # rest) generatedChapters r =
     (let r1 = step (\<lambda>s. s\<lparr>generationProgress :=
                   (generationProgress s)\<lparr>current := i + 1,
                      message := chapter_message i totalChapters (title chapterSpec)\<rparr>\<rparr>) r;
          (text, r2) = generateChapterContent (flush_at w (Chap_call i)) (chapter_response w i)
                         topic (title chapterSpec) (sections chapterSpec) r1;
          r3 = await (flush_at w (Chap_return i)) r2
      in chapter_loop w topic totalChapters (i + 1) rest
           (generatedChapters @
              [\<lparr>title = title chapterSpec, sections = sections chapterSpec, content = text\<rparr>])
           r3)"

definition generateEbook :: "world \<Rightarrow> AppComponent \<Rightarrow> run" where
  "generateEbook w s0 =
     (let topic = trim (ebookTopic s0) in
      if topic = [] then
        step (\<lambda>s. s\<lparr>ebookState := Error\<rparr>)
          (step (\<lambda>s. s\<lparr>componentError := Some ''Please provide a topic for your ebook.''\<rparr>)
             (s0, []))
      else
        let r1 = step (\<lambda>s. s\<lparr>componentError := None\<rparr>) (s0, []);
            r2 = step (\<lambda>s. s\<lparr>ebookState := Generating\<rparr>) r1;
            r3 = step (\<lambda>s. s\<lparr>generationProgress :=
                   \<lparr>current = 0, total = 1, message = ''Generating table of contents...''\<rparr>\<rparr>) r2;
            (toc, r4) = generateTableOfContents (flush_at w Toc_call) (toc_response w) topic r3;
            r5 = await (flush_at w Toc_return) r4;
            invalid =
              step (\<lambda>s. s\<lparr>generationProgress := \<lparr>current = 0, total = 0,
                       message = ''Could not generate a valid table of contents.''\<rparr>\<rparr>)
                (step (\<lambda>s. s\<lparr>ebookState := Error\<rparr>) r5)
        in case toc of
             None \<Rightarrow> invalid
           | Some t \<Rightarrow>
               (case toc_chapters t of
                  None \<Rightarrow> invalid
                | Some chapters \<Rightarrow>
                    if length chapters = 0 then invalid
                    else
                      let totalChapters = length chapters;
                          r6 = step (\<lambda>s. s\<lparr>generationProgress := \<lparr>current = 0,
                                 total = totalChapters,
                                 message = ''Table of contents generated. Generating chapters...''\<rparr>\<rparr>)
                                 r5;
                          (generatedChapters, r7) =
                             chapter_loop w topic totalChapters 0 chapters [] r6;
                          r8 = step (\<lambda>s. s\<lparr>ebook := Some \<lparr>ebook_title = toc_title t,
                                 ebook_chapters = generatedChapters\<rparr>\<rparr>) r7
                      in step (\<lambda>s. s\<lparr>ebookState := Completed\<rparr>) r8))"

text \<open>
  \<^verbatim>\<open>exportToPdf\<close> together with the callback it hands to \<^verbatim>\<open>setTimeout\<close>.  The rendering
  pipeline either throws inside the \<^verbatim>\<open>try\<close> or calls back with the finished document.
  Reading \<^verbatim>\<open>nativeElement\<close> of a container that is not there throws before the \<^verbatim>\<open>try\<close>:
  the promise is rejected and the state stays as the first two writes left it.
\<close>

definition is_alnum :: "char \<Rightarrow> bool" where
  "is_alnum c \<longleftrightarrow>
     (let n = (of_char c :: nat)
      in (48 \<le> n \<and> n \<le> 57) \<or> (65 \<le> n \<and> n \<le> 90) \<or> (97 \<le> n \<and> n \<le> 122))"

definition to_lower :: "char \<Rightarrow> char" where
  "to_lower c =
     (let n = (of_char c :: nat) in if 65 \<le> n \<and> n \<le> 90 then char_of (n + 32) else c)"

definition safeTitle :: "Ebook option \<Rightarrow> string" where
  "safeTitle e =
     (case e of
        None \<Rightarrow> ''ebook''
      | Some b \<Rightarrow>
          (let t = map to_lower (map (\<lambda>c. if is_alnum c then c else CHR ''_'') (ebook_title b))
           in if t = [] then ''ebook'' else t))"

definition on_container :: "(Container \<Rightarrow> Container) \<Rightarrow> AppComponent \<Rightarrow> AppComponent" where
  "on_container f s = s\<lparr>ebookContainer := map_option f (ebookContainer s)\<rparr>"

definition exportToPdf :: "unit outcome \<Rightarrow> AppComponent \<Rightarrow> unit outcome \<times> AppComponent" where
  "exportToPdf pdf s0 =
     (let s1 = s0\<lparr>componentError := None\<rparr>;
          s2 = s1\<lparr>ebookState := Exporting\<rparr>
      in case ebookContainer s2 of
           None \<Rightarrow> (Throws, s2)
         | Some element \<Rightarrow>
             let originalWidth = style_width element;
                 s3 = on_container (\<lambda>c. c\<lparr>exporting_pdf := True\<rparr>) s2;
                 s4 = on_container (\<lambda>c. c\<lparr>style_width := ''595pt''\<rparr>) s3
             in (case pdf of
                  Returns u \<Rightarrow>
                    let s5 = s4\<lparr>saved := saved s4 @ [safeTitle (ebook s4) @ ''.pdf'']\<rparr>;
                        s6 = on_container (\<lambda>c. c\<lparr>style_width := originalWidth\<rparr>) s5;
                        s7 = on_container (\<lambda>c. c\<lparr>exporting_pdf := False\<rparr>) s6
                    in (Returns (), s7\<lparr>ebookState := Completed\<rparr>)
                | Throws \<Rightarrow>
                    let s5 = s4\<lparr>componentError :=
                               Some ''An unexpected error occurred during PDF export.''\<rparr>;
                        s6 = on_container (\<lambda>c. c\<lparr>style_width := originalWidth\<rparr>) s5;
                        s7 = on_container (\<lambda>c. c\<lparr>exporting_pdf := False\<rparr>) s6
                    in (Returns (), s7\<lparr>ebookState := Error\<rparr>)))"

section \<open>parseMarkdown\<close>

text \<open>
  \<^verbatim>\<open>text.replace(re, template)\<close> with a global regular expression scans the subject from
  the left; where the expression matches, the match is replaced and the scan goes on behind
  it, elsewhere one character is copied.  A matcher stands for one expression with its
  template: at a position, told whether this is the start of a line, it yields the
  replacement text and the rest of the subject behind the match.  None of the expressions
  below matches the empty string.
\<close>

type_synonym matcher = "bool \<Rightarrow> string \<Rightarrow> (string \<times> string) option"

fun gsub :: "matcher \<Rightarrow> bool \<Rightarrow> string \<Rightarrow> string" where
  "gsub m bol [] = []"
| "gsub m bol (c # cs) =
     (case m bol (c # cs) of
        None \<Rightarrow> c # gsub m (is_line_terminator c) cs
      | Some (out, rest) \<Rightarrow>
          if length rest \<le> length cs
          then out @ gsub m
                 (is_line_terminator (last (take (Suc (length cs) - length rest) (c # cs)))) rest
          else c # gsub m (is_line_terminator c) cs)"

definition replace :: "matcher \<Rightarrow> string \<Rightarrow> string" where
  "replace m s = gsub m True s"

definition starts_with :: "string \<Rightarrow> string \<Rightarrow> bool" where
  "starts_with p s \<longleftrightarrow> take (length p) s = p"

definition line_rest :: "string \<Rightarrow> string \<times> string" where
  "line_rest s = (takeWhile (\<lambda>c. \<not> is_line_terminator c) s,
                  dropWhile (\<lambda>c. \<not> is_line_terminator c) s)"

text \<open>\<^verbatim>\<open>/^P(.*$)/gim\<close> for a literal \<open>P\<close>, with the template \<open>opening$1closing\<close>: at the start
  of a line, \<open>P\<close> and then the rest of the line.\<close>

definition line_rule :: "string \<Rightarrow> string \<Rightarrow> string \<Rightarrow> matcher" where
  "line_rule p opening closing bol s =
     (if bol \<and> starts_with p s
      then (case line_rest (drop (length p) s) of
              (captured, rest) \<Rightarrow> Some (opening @ captured @ closing, rest))
      else None)"

text \<open>\<^verbatim>\<open>(.*?)D\<close> for a literal \<open>D\<close>: the shortest stretch without a line terminator that
  \<open>D\<close> follows.\<close>

fun lazy_until :: "string \<Rightarrow> string \<Rightarrow> (string \<times> string) option" where
  "lazy_until d [] = (if d = [] then Some ([], []) else None)"
| "lazy_until d (c # cs) =
     (if starts_with d (c # cs) then Some ([], drop (length d) (c # cs))
      else if is_line_terminator c then None
      else (case lazy_until d cs of
              None \<Rightarrow> None
            | Some (captured, rest) \<Rightarrow> Some (c # captured, rest)))"

text \<open>\<^verbatim>\<open>/D(.*?)D/g\<close> with the template \<open>opening$1closing\<close>.\<close>

definition span_rule :: "string \<Rightarrow> string \<Rightarrow> string \<Rightarrow> matcher" where
  "span_rule d opening closing bol s =
     (if starts_with d s
      then (case lazy_until d (drop (length d) s) of
              None \<Rightarrow> None
            | Some (captured, rest) \<Rightarrow> Some (opening @ captured @ closing, rest))
      else None)"

text \<open>\<^verbatim>\<open>/`([^`]+)`/g\<close>: a backquote, one or more characters other than a backquote (line
  terminators included), a backquote.\<close>

definition code_rule :: "string \<Rightarrow> string \<Rightarrow> matcher" where
  "code_rule opening closing bol s =
     (case s of
        [] \<Rightarrow> None
      | c # cs \<Rightarrow>
          if c = CHR 0x60 then
            (let captured = takeWhile (\<lambda>x. x \<noteq> CHR 0x60) cs;
                 rest = dropWhile (\<lambda>x. x \<noteq> CHR 0x60) cs
             in if captured \<noteq> [] \<and> rest \<noteq> [] then Some (opening @ captured @ closing, tl rest)
                else None)
          else None)"

text \<open>A literal pattern with a fixed replacement.\<close>

definition literal_rule :: "string \<Rightarrow> string \<Rightarrow> matcher" where
  "literal_rule p out bol s = (if starts_with p s then Some (out, drop (length p) s) else None)"

text \<open>\<^verbatim>\<open>/(\r\n|\n)?\s*[\-\*] (.*)/g\<close> with the template \<^verbatim>\<open><li>$2</li>\<close>.  The optional line
  break is white space too, and neither marker is, so the expression matches exactly when
  the longest stretch of white space is followed by a marker and a space; the second group
  is the rest of the line.\<close>

definition item_rule :: matcher where
  "item_rule bol s =
     (case dropWhile is_space s of
        marker # sp # body \<Rightarrow>
          if (marker = CHR ''-'' \<or> marker = CHR ''*'') \<and> sp = CHR '' ''
          then (case line_rest body of
                  (captured, rest) \<Rightarrow> Some (''<li>'' @ captured @ ''</li>'', rest))
          else None
      | _ \<Rightarrow> None)"

text \<open>\<^verbatim>\<open>(.*)D\<close> under the flag \<^verbatim>\<open>s\<close>, for a literal \<open>D\<close>: the longest stretch, of any
  characters, that \<open>D\<close> follows.\<close>

fun greedy_until :: "string \<Rightarrow> string \<Rightarrow> (string \<times> string) option" where
  "greedy_until d [] = (if d = [] then Some ([], []) else None)"
| "greedy_until d (c # cs) =
     (case greedy_until d cs of
        Some (captured, rest) \<Rightarrow> Some (c # captured, rest)
      | None \<Rightarrow> if starts_with d (c # cs) then Some ([], drop (length d) (c # cs)) else None)"

text \<open>\<^verbatim>\<open>/(<li>.*<\/li>)/gs\<close> with the template \<^verbatim>\<open><ul>$1</ul>\<close>.\<close>

definition list_rule :: matcher where
  "list_rule bol s =
     (if starts_with ''<li>'' s
      then (case greedy_until ''</li>'' (drop 4 s) of
              None \<Rightarrow> None
            | Some (captured, rest) \<Rightarrow> Some (''<ul><li>'' @ captured @ ''</li></ul>'', rest))
      else None)"

text \<open>\<^verbatim>\<open>/<\/ul>\s*<ul>/g\<close> with the empty template.\<close>

definition merge_rule :: matcher where
  "merge_rule bol s =
     (if starts_with ''</ul>'' s
      then (let t = dropWhile is_space (drop 5 s)
            in if starts_with ''<ul>'' t then Some ([], drop 4 t) else None)
      else None)"

definition h3_open :: string where
  \<open>h3_open = ''<h3 class="text-xl font-semibold mt-6 mb-2 text-indigo-300">''\<close>

definition h2_open :: string where
  \<open>h2_open = ''<h2 class="text-2xl font-bold mt-8 mb-4 text-indigo-400 border-b border-gray-600 pb-2">''\<close>

definition h1_open :: string where
  \<open>h1_open = ''<h1 class="text-3xl font-extrabold mt-8 mb-4 text-indigo-300">''\<close>

definition blockquote_open :: string where
  \<open>blockquote_open = ''<blockquote class="border-l-4 border-indigo-500 pl-4 italic text-gray-400 my-4">''\<close>

definition strong_open :: string where
  \<open>strong_open = ''<strong class="text-indigo-300">''\<close>

definition code_open :: string where
  \<open>code_open = ''<code class="bg-gray-700 text-red-300 rounded px-2 py-1 text-sm">''\<close>

definition p_open :: string where
  \<open>p_open = ''<p class="my-4 leading-relaxed">''\<close>

text \<open>The three heading substitutions, in the order of the source.\<close>

definition headings :: "string \<Rightarrow> string" where
  "headings text =
     replace (line_rule ''# '' h1_open ''</h1>'')
       (replace (line_rule ''## '' h2_open ''</h2>'')
          (replace (line_rule ''### '' h3_open ''</h3>'') text))"

text \<open>The substitutions that follow the headings, up to the closing wrapper.\<close>

definition inline_and_lists :: "string \<Rightarrow> string" where
  "inline_and_lists h =
     (let html = replace (line_rule ''> '' blockquote_open ''</blockquote>'') h;
          html = replace (span_rule ''**'' strong_open ''</strong>'') html;
          html = replace (span_rule ''*'' ''<em>'' ''</em>'') html;
          html = replace (code_rule code_open ''</code>'') html;
          html = replace (literal_rule [CHR 0x0A, CHR 0x0A] (''</p>'' @ p_open)) html;
          html = replace (literal_rule [CHR 0x0A] ''<br>'') html;
          html = replace item_rule html;
          html = replace list_rule html;
          html = replace merge_rule html
      in html)"

definition parseMarkdown :: "string \<Rightarrow> string" where
  "parseMarkdown text =
     (if text = [] then [] else p_open @ inline_and_lists (headings text) @ ''</p>'')"

section \<open>Notions used to state the properties\<close>

text \<open>The successive values of \<^verbatim>\<open>ebookState\<close> along a run, repetitions dropped, and the
  successive values of \<^verbatim>\<open>generationProgress\<close>.\<close>

definition trajectory :: "run \<Rightarrow> EbookState list" where
  "trajectory r = remdups_adj (map ebookState (states r))"


text \<open>The content a chapter of the finished book gets from the outcome of its request, and
  the chapter list the loop builds from the outline entries, counting from index \<open>i\<close>.\<close>

definition chapter_text :: "world \<Rightarrow> nat \<Rightarrow> string option" where
  "chapter_text w i =
     (case chapter_response w i of Throws \<Rightarrow> Some chapter_placeholder | Returns text \<Rightarrow> text)"

fun assembled :: "world \<Rightarrow> nat \<Rightarrow> ChapterSpec list \<Rightarrow> Chapter list" where
  "assembled w i [] = []"
| "assembled w i (c # cs) =
     \<lparr>title = title c, sections = sections c, content = chapter_text w i\<rparr>
       # assembled w (i + 1) cs"

definition chapter_events :: "string \<Rightarrow> ChapterSpec list \<Rightarrow> ProviderEvent list" where
  "chapter_events topic chs =
     concat (map (\<lambda>c. [Chapter_call topic (title c) (sections c), Chapter_done]) chs)"

text \<open>The run of \<^verbatim>\<open>generateEbook\<close> up to the loop, when the client exists and the outline
  request returns an outline with \<open>n\<close> chapters.\<close>

definition outline_phase :: "world \<Rightarrow> AppComponent \<Rightarrow> nat \<Rightarrow> run" where
  "outline_phase w s0 n =
     (let r1 = step (\<lambda>s. s\<lparr>componentError := None\<rparr>) (s0, []);
          r2 = step (\<lambda>s. s\<lparr>ebookState := Generating\<rparr>) r1;
          r3 = step (\<lambda>s. s\<lparr>generationProgress :=
                   \<lparr>current = 0, total = 1, message = ''Generating table of contents...''\<rparr>\<rparr>) r2;
          r4 = log_call Outline_done (await (flush_at w Toc_call)
                 (step (set_error None) (log_call (Outline_call (trim (ebookTopic s0))) r3)));
          r5 = await (flush_at w Toc_return) r4
      in step (\<lambda>s. s\<lparr>generationProgress := \<lparr>current = 0, total = n,
                 message = ''Table of contents generated. Generating chapters...''\<rparr>\<rparr>) r5)"

text \<open>The outline a run works from, if it gets that far: the guards of \<^verbatim>\<open>generateEbook\<close>
  and of \<^verbatim>\<open>generateTableOfContents\<close> in one place.\<close>

definition usable_outline ::
  "world \<Rightarrow> AppComponent \<Rightarrow> (TocStructure \<times> ChapterSpec list) option" where
  "usable_outline w s =
     (if trim (ebookTopic s) = [] \<or> \<not> genAI s then None
      else case toc_response w of
             Throws \<Rightarrow> None
           | Returns None \<Rightarrow> None
           | Returns (Some t) \<Rightarrow>
               (case toc_chapters t of
                  None \<Rightarrow> None
                | Some chs \<Rightarrow> if chs = [] then None else Some (t, chs)))"




definition undisturbed :: "run \<Rightarrow> bool" where
  "undisturbed r \<longleftrightarrow>
     trajectory r = [Idle, Generating] \<and> ebookState (fst r) = Generating \<and> error (fst r) = None"




text \<open>Number of places at which \<open>p\<close> occurs in \<open>s\<close>.\<close>

fun occurrences :: "string \<Rightarrow> string \<Rightarrow> nat" where
  "occurrences p [] = (if p = [] then 1 else 0)"
| "occurrences p (c # cs) = (if starts_with p (c # cs) then 1 else 0) + occurrences p cs"





section \<open>Sample inputs\<close>

text \<open>The scenario of the specification: the topic ``bread baking'' and an outline of two
  chapters.  In \<open>calm\<close> every request returns.  In \<open>stormy\<close> the request for the second
  chapter throws and the effect runs right after that call; in \<open>late\<close> it throws too, but
  the effect does not run while \<^verbatim>\<open>generateEbook\<close> is under way.  In \<open>unnoticed\<close> it is the
  request for the first chapter that throws, and again the effect does not run during the
  call.\<close>

definition bread_chapters :: "ChapterSpec list" where
  "bread_chapters =
     [\<lparr>title = ''Intro'', sections = [''history'']\<rparr>,
      \<lparr>title = ''Dough'', sections = [''hydration'', ''kneading'']\<rparr>]"

definition bread_toc :: TocStructure where
  "bread_toc = \<lparr>toc_title = ''Bread 101'', toc_chapters = Some bread_chapters\<rparr>"

definition section_text :: string where
  "section_text = ''## Section'' @ [CHR 0x0A] @ ''Some *text*.''"

definition calm :: world where
  "calm = \<lparr>toc_response = Returns (Some bread_toc),
            chapter_response = (\<lambda>i. Returns (Some section_text)),
            flush_at = (\<lambda>p. True)\<rparr>"

definition stormy :: world where
  "stormy = \<lparr>toc_response = Returns (Some bread_toc),
              chapter_response = (\<lambda>i. if i = 1 then Throws else Returns (Some section_text)),
              flush_at = (\<lambda>p. p = Chap_return 1)\<rparr>"

definition late :: world where
  "late = \<lparr>toc_response = Returns (Some bread_toc),
            chapter_response = (\<lambda>i. if i = 1 then Throws else Returns (Some section_text)),
            flush_at = (\<lambda>p. False)\<rparr>"

definition unnoticed :: world where
  "unnoticed = \<lparr>toc_response = Returns (Some bread_toc),
                 chapter_response = (\<lambda>i. if i = 0 then Throws else Returns (Some section_text)),
                 flush_at = (\<lambda>p. False)\<rparr>"

definition no_outline :: world where
  "no_outline = \<lparr>toc_response = Throws,
                  chapter_response = (\<lambda>i. Returns (Some section_text)),
                  flush_at = (\<lambda>p. True)\<rparr>"

definition fresh :: AppComponent where
  "fresh = (initial (Some ''key''))\<lparr>ebookTopic := '' bread baking ''\<rparr>"

definition blank :: AppComponent where
  "blank = (initial (Some ''key''))\<lparr>ebookTopic := [CHR '' '', CHR 0x09, CHR 0x0A]\<rparr>"

definition busy :: run where
  "busy = (fresh\<lparr>ebookState := Generating\<rparr>, [])"

definition finished :: AppComponent where
  "finished = fresh\<lparr>ebookState := Completed,
      ebook := Some \<lparr>ebook_title = ''Bread 101'', ebook_chapters = []\<rparr>,
      ebookContainer := Some \<lparr>style_width = ''100%'', exporting_pdf = False\<rparr>\<rparr>"

section \<open>Runs: basic facts\<close>

declare show_nat.simps [simp del]

lemma fst_step: "fst (step f r) = f (fst r)" by (simp add: step_def)
lemma snd_step: "snd (step f r) = fst r # snd r" by (simp add: step_def)
lemma fst_log_call: "fst (log_call ev r) = (fst r)\<lparr>calls := calls (fst r) @ [ev]\<rparr>" by (simp add: log_call_def)
lemma snd_log_call: "snd (log_call ev r) = snd r" by (simp add: log_call_def)
lemma states_step: "states (step f r) = states r @ [f (fst r)]" by (simp add: states_def step_def)
lemma states_log_call: "states (log_call ev r) = butlast (states r) @ [(fst r)\<lparr>calls := calls (fst r) @ [ev]\<rparr>]"
  by (simp add: states_def log_call_def)
lemma states_nonempty: "states r \<noteq> []" by (simp add: states_def)
lemma last_states: "last (states r) = fst r" by (simp add: states_def)

lemma generateEbook_valid:
  assumes "trim (ebookTopic s) \<noteq> []" "genAI s" "toc_response w = Returns (Some t)"
    "toc_chapters t = Some chs" "chs \<noteq> []"
  shows "generateEbook w s =
     step (\<lambda>st. st\<lparr>ebookState := Completed\<rparr>)
       (step (\<lambda>st. st\<lparr>ebook := Some \<lparr>ebook_title = toc_title t,
            ebook_chapters = fst (chapter_loop w (trim (ebookTopic s)) (length chs) 0 chs []
                                   (outline_phase w s (length chs)))\<rparr>\<rparr>)
          (snd (chapter_loop w (trim (ebookTopic s)) (length chs) 0 chs []
                  (outline_phase w s (length chs)))))"
  using assms
  by (simp add: generateEbook_def generateTableOfContents_def outline_phase_def Let_def
      split_beta fst_log_call fst_step)

lemma chapter_call_invariant:
  assumes "I r"
    and lg: "\<And>r ev. I r \<Longrightarrow> I (log_call ev r)"
    and clr: "\<And>r. I r \<Longrightarrow> I (step (set_error None) r)"
    and err: "\<And>r. I r \<Longrightarrow> api = Throws \<Longrightarrow> I (step (set_error (Some (chapter_failed t))) r)"
    and fl: "\<And>r. I r \<Longrightarrow> I (step flushEffects r)"
  shows "I (snd (generateChapterContent f api topic t ss r))"
proof -
  let ?r1 = "log_call (Chapter_call topic t ss) r"
  have 1: "I ?r1" using assms(1) by (rule lg)
  have 2: "I (step (set_error None) ?r1)" using 1 by (rule clr)
  have 3: "I (await f (step (set_error None) ?r1))" using 2 fl by (simp add: await_def)
  show ?thesis
  proof (cases api)
    case Throws
    then show ?thesis using 1 3 lg err by (simp add: generateChapterContent_def Let_def)
  next
    case (Returns x)
    then show ?thesis using 1 3 lg by (simp add: generateChapterContent_def Let_def)
  qed
qed

lemma chapter_loop_invariant:
  fixes I :: "nat \<Rightarrow> run \<Rightarrow> bool"
  assumes "I i r"
    and err: "\<And>j r t. I (j + 1) r \<Longrightarrow> i \<le> j \<Longrightarrow> j < i + length chs \<Longrightarrow>
       chapter_response w j = Throws \<Longrightarrow> I (j + 1) (step (set_error (Some (chapter_failed t))) r)"
    and prog: "\<And>i r p. I i r \<Longrightarrow>
       I (i + 1) (step (\<lambda>s. s\<lparr>generationProgress := (generationProgress s)\<lparr>current := i + 1, message := p\<rparr>\<rparr>) r)"
    and lg: "\<And>i r ev. I i r \<Longrightarrow> I i (log_call ev r)"
    and clr: "\<And>i r. I i r \<Longrightarrow> I i (step (set_error None) r)"
    and fl: "\<And>i r. I i r \<Longrightarrow> I i (step flushEffects r)"
  shows "I (i + length chs) (snd (chapter_loop w topic n i chs acc r))"
  using assms(1,2)
proof (induction chs arbitrary: i acc r)
  case Nil
  then show ?case by simp
next
  case (Cons c chs)
  let ?r1 = "step (\<lambda>s. s\<lparr>generationProgress := (generationProgress s)\<lparr>current := i + 1,
                      message := chapter_message i n (title c)\<rparr>\<rparr>) r"
  let ?call = "generateChapterContent (flush_at w (Chap_call i)) (chapter_response w i)
                         topic (title c) (sections c) ?r1"
  let ?r3 = "await (flush_at w (Chap_return i)) (snd ?call)"
  have 1: "I (i + 1) ?r1" using Cons.prems(1) by (rule prog)
  have e: "\<And>r. I (i + 1) r \<Longrightarrow> chapter_response w i = Throws \<Longrightarrow>
       I (i + 1) (step (set_error (Some (chapter_failed (title c)))) r)"
    using Cons.prems(2)[of i] by simp
  have 2: "I (i + 1) (snd ?call)"
    using 1 lg clr e fl by (rule chapter_call_invariant[where I="I (i + 1)"]) 
  have 3: "I (i + 1) ?r3" using 2 fl by (simp add: await_def)
  have "I (i + 1 + length chs) (snd (chapter_loop w topic n (i + 1) chs
           (acc @ [\<lparr>title = title c, sections = sections c, content = fst ?call\<rparr>]) ?r3))"
    using 3 
  proof (rule Cons.IH)
    fix j r t
    assume "I (j + 1) r" "i + 1 \<le> j" "j < i + 1 + length chs" "chapter_response w j = Throws"
    then show "I (j + 1) (step (set_error (Some (chapter_failed t))) r)"
      using Cons.prems(2)[of j r t] by simp
  qed
  then show ?case by (simp add: Let_def split_beta)
qed

lemma chapter_content_result:
  "fst (generateChapterContent fl api topic chapterTitle sects r) =
     (if \<not> genAI (fst r) then Some []
      else case api of Throws \<Rightarrow> Some chapter_placeholder | Returns text \<Rightarrow> text)"
  by (cases api) (simp_all add: generateChapterContent_def Let_def log_call_def)

lemma genAI_set_error: "genAI (set_error v s) = genAI s" by (simp add: set_error_def)
lemma genAI_flushEffects: "genAI (flushEffects s) = genAI s"
  by (simp add: flushEffects_def serviceErrorEffect_def)

lemma genAI_chapter_call:
  "genAI (fst (snd (generateChapterContent fl api topic t ss r))) = genAI (fst r)"
  by (cases api; cases fl)
    (simp_all add: generateChapterContent_def Let_def fst_log_call fst_step await_def
      genAI_set_error genAI_flushEffects)

lemma chapter_loop_result:
  "genAI (fst r) \<Longrightarrow>
   fst (chapter_loop w topic n i chs acc r) = acc @ assembled w i chs"
proof (induction chs arbitrary: i acc r)
  case Nil
  then show ?case by simp
next
  case (Cons c chs)
  let ?r1 = "step (\<lambda>s. s\<lparr>generationProgress := (generationProgress s)\<lparr>current := i + 1,
                      message := chapter_message i n (title c)\<rparr>\<rparr>) r"
  let ?call = "generateChapterContent (flush_at w (Chap_call i)) (chapter_response w i)
                         topic (title c) (sections c) ?r1"
  let ?r3 = "await (flush_at w (Chap_return i)) (snd ?call)"
  have g1: "genAI (fst ?r1)" using Cons.prems by (simp add: fst_step)
  have "genAI (fst (snd ?call))" using g1 by (simp only: genAI_chapter_call)
  then have g3: "genAI (fst ?r3)" by (simp add: await_def fst_step genAI_flushEffects)
  have tx: "fst ?call = chapter_text w i"
    using g1 by (simp add: chapter_content_result chapter_text_def)
  have "fst (chapter_loop w topic n (i + 1) chs
           (acc @ [\<lparr>title = title c, sections = sections c, content = fst ?call\<rparr>]) ?r3)
        = (acc @ [\<lparr>title = title c, sections = sections c, content = fst ?call\<rparr>])
            @ assembled w (i + 1) chs"
    using g3 by (rule Cons.IH)
  then show ?case using tx by (simp add: Let_def split_beta)
qed

lemma length_assembled: "length (assembled w i chs) = length chs"
  by (induction chs arbitrary: i) auto
lemma content_assembled: "k < length chs \<Longrightarrow> content (assembled w i chs ! k) = chapter_text w (i + k)"
proof (induction chs arbitrary: i k)
  case Nil then show ?case by simp
next
  case (Cons c chs) then show ?case by (cases k) auto
qed


subsection \<open>ebook untouched\<close>

lemma fst_in_states: "fst r \<in> set (states r)" by (simp add: states_def)

lemma all_states_step:
  "(\<forall>st\<in>set (states (step f r)). P st) \<longleftrightarrow> (\<forall>st\<in>set (states r). P st) \<and> P (f (fst r))"
  by (auto simp: states_step)

lemma all_states_log_call:
  assumes "\<forall>st\<in>set (states r). P st" "P ((fst r)\<lparr>calls := calls (fst r) @ [ev]\<rparr>)"
  shows "\<forall>st\<in>set (states (log_call ev r)). P st"
  using assms by (auto simp: states_log_call dest: in_set_butlastD)

lemma all_states_await:
  assumes "\<forall>st\<in>set (states r). P st" "P (flushEffects (fst r))"
  shows "\<forall>st\<in>set (states (await fl r)). P st"
  using assms by (simp add: await_def all_states_step)

lemma ebook_set_error: "ebook (set_error v s) = ebook s" by (simp add: set_error_def)
lemma ebook_flushEffects: "ebook (flushEffects s) = ebook s"
  by (simp add: flushEffects_def serviceErrorEffect_def)

lemma ebook_kept_invariant:
  assumes "\<forall>st\<in>set (states r). ebook st = e"
  shows "\<forall>st\<in>set (states (snd (chapter_loop w topic n i chs acc r))). ebook st = e"
proof -
  let ?I = "\<lambda>(j::nat) r. \<forall>st\<in>set (states r). ebook st = e"
  have "?I (i + length chs) (snd (chapter_loop w topic n i chs acc r))"
  proof (rule chapter_loop_invariant[where I = ?I])
    show "?I i r" using assms .
  next
    fix j r t assume "?I (j + 1) r"
    then show "?I (j + 1) (step (set_error (Some (chapter_failed t))) r)"
      using fst_in_states[of r] by (simp add: all_states_step ebook_set_error)
  next
    fix i r p assume "?I i r"
    then show "?I (i + 1) (step (\<lambda>s. s\<lparr>generationProgress :=
        (generationProgress s)\<lparr>current := i + 1, message := p\<rparr>\<rparr>) r)"
      using fst_in_states[of r] by (simp add: all_states_step)
  next
    fix i r ev assume "?I i r"
    then show "?I i (log_call ev r)"
      using fst_in_states[of r] by (intro all_states_log_call) simp_all
  next
    fix i r assume "?I i r"
    then show "?I i (step (set_error None) r)"
      using fst_in_states[of r] by (simp add: all_states_step ebook_set_error)
  next
    fix i r assume "?I i r"
    then show "?I i (step flushEffects r)"
      using fst_in_states[of r] by (simp add: all_states_step ebook_flushEffects)
  qed
  then show ?thesis .
qed

lemma ebook_kept_outline_phase:
  "\<forall>st\<in>set (states (outline_phase w s n)). ebook st = ebook s"
  by (simp add: outline_phase_def Let_def states_def fst_step snd_step fst_log_call snd_log_call
      await_def ebook_set_error ebook_flushEffects)


subsection \<open>trajectory\<close>

lemma remdups_adj_snoc:
  "xs \<noteq> [] \<Longrightarrow> remdups_adj (xs @ [y]) = (if last xs = y then remdups_adj xs else remdups_adj xs @ [y])"
proof (induction xs rule: rev_induct)
  case Nil then show ?case by simp
next
  case (snoc x xs) then show ?case by (simp add: remdups_adj_append_two)
qed

lemma trajectory_step:
  "trajectory (step f r) =
     (if ebookState (f (fst r)) = ebookState (fst r) then trajectory r
      else trajectory r @ [ebookState (f (fst r))])"
proof -
  have "map ebookState (states r) \<noteq> []" by (simp add: states_def)
  moreover have "last (map ebookState (states r)) = ebookState (fst r)"
    by (simp add: states_def)
  ultimately show ?thesis
    unfolding trajectory_def states_step map_append
    using remdups_adj_snoc[of "map ebookState (states r)" "ebookState (f (fst r))"] by auto
qed


lemma trajectory_await_keep:
  "ebookState (flushEffects (fst r)) = ebookState (fst r) \<Longrightarrow> trajectory (await fl r) = trajectory r"
  by (simp add: await_def trajectory_step)

lemma error_set_error: "error (set_error v s) = v" by (simp add: set_error_def)









lemma undisturbed_keep:
  "undisturbed r \<Longrightarrow> ebookState (f (fst r)) = ebookState (fst r) \<Longrightarrow> error (f (fst r)) = None
     \<Longrightarrow> undisturbed (step f r)"
  by (auto simp: undisturbed_def trajectory_step fst_step)






subsection \<open>progress\<close>












subsection \<open>calls\<close>

lemma calls_set_error: "calls (set_error v s) = calls s" by (simp add: set_error_def)
lemma calls_flushEffects: "calls (flushEffects s) = calls s"
  by (simp add: flushEffects_def serviceErrorEffect_def)
lemma calls_await: "calls (fst (await fl r)) = calls (fst r)"
  by (simp add: await_def fst_step calls_flushEffects)

lemma calls_chapter_call:
  "calls (fst (snd (generateChapterContent fl api topic t ss r))) =
     calls (fst r) @ [Chapter_call topic t ss, Chapter_done]"
  by (cases api)
     (simp_all add: generateChapterContent_def Let_def fst_log_call fst_step calls_await
       calls_set_error)


lemma calls_loop:
  "calls (fst (snd (chapter_loop w topic n i chs acc r))) = calls (fst r) @ chapter_events topic chs"
proof (induction chs arbitrary: i acc r)
  case Nil then show ?case by (simp add: chapter_events_def)
next
  case (Cons c chs)
  show ?case
    by (simp add: Let_def split_beta Cons.IH calls_await calls_chapter_call fst_step
        chapter_events_def)
qed

lemma calls_outline_phase:
  "calls (fst (outline_phase w s n)) = calls s @ [Outline_call (trim (ebookTopic s)), Outline_done]"
  by (simp add: outline_phase_def Let_def fst_step fst_log_call calls_await calls_set_error)

lemma genAI_outline_phase: "genAI (fst (outline_phase w s n)) = genAI s"
  by (cases "flush_at w Toc_call"; cases "flush_at w Toc_return")
     (simp_all add: outline_phase_def Let_def fst_step fst_log_call await_def genAI_set_error
       genAI_flushEffects)


lemma usable_outline_Some:
  "usable_outline w s = Some (t, chs) \<longleftrightarrow>
     trim (ebookTopic s) \<noteq> [] \<and> genAI s \<and> toc_response w = Returns (Some t) \<and>
     toc_chapters t = Some chs \<and> chs \<noteq> []"
  by (auto simp: usable_outline_def split: outcome.splits option.splits if_splits)

lemma toc_result:
  "fst (generateTableOfContents fl api topic r) =
     (if \<not> genAI (fst r) then None else case api of Throws \<Rightarrow> None | Returns toc \<Rightarrow> toc)"
  by (cases api) (simp_all add: generateTableOfContents_def Let_def fst_log_call)

lemma ebook_kept_toc:
  assumes "\<forall>st\<in>set (states r). ebook st = e"
  shows "\<forall>st\<in>set (states (snd (generateTableOfContents fl api topic r))). ebook st = e"
  using assms
  by (cases api; cases fl)
     (simp_all add: generateTableOfContents_def Let_def states_def fst_step snd_step fst_log_call
       snd_log_call await_def ebook_set_error ebook_flushEffects)

lemma generateEbook_invalid:
  assumes "usable_outline w s = None" "trim (ebookTopic s) \<noteq> []"
  shows "generateEbook w s =
     step (\<lambda>s. s\<lparr>generationProgress := \<lparr>current = 0, total = 0,
              message = ''Could not generate a valid table of contents.''\<rparr>\<rparr>)
       (step (\<lambda>s. s\<lparr>ebookState := Error\<rparr>)
          (await (flush_at w Toc_return)
             (snd (generateTableOfContents (flush_at w Toc_call) (toc_response w)
                (trim (ebookTopic s))
                (step (\<lambda>s. s\<lparr>generationProgress :=
                   \<lparr>current = 0, total = 1, message = ''Generating table of contents...''\<rparr>\<rparr>)
                  (step (\<lambda>s. s\<lparr>ebookState := Generating\<rparr>)
                    (step (\<lambda>s. s\<lparr>componentError := None\<rparr>) (s, []))))))))"
  using assms
  by (auto simp: generateEbook_def Let_def split_beta toc_result fst_step usable_outline_def
      split: outcome.splits option.splits if_splits)

lemma ebook_kept_invalid:
  assumes "usable_outline w s = None"
  shows "\<forall>st\<in>set (states (generateEbook w s)). ebook st = ebook s"
proof (cases "trim (ebookTopic s) = []")
  case True
  then show ?thesis by (simp add: generateEbook_def states_def step_def)
next
  case False
  let ?r3 = "step (\<lambda>s. s\<lparr>generationProgress :=
                   \<lparr>current = 0, total = 1, message = ''Generating table of contents...''\<rparr>\<rparr>)
                  (step (\<lambda>s. s\<lparr>ebookState := Generating\<rparr>)
                    (step (\<lambda>s. s\<lparr>componentError := None\<rparr>) (s, [])))"
  let ?r4 = "snd (generateTableOfContents (flush_at w Toc_call) (toc_response w)
                (trim (ebookTopic s)) ?r3)"
  have "\<forall>st\<in>set (states ?r3). ebook st = ebook s" by (simp add: states_def step_def)
  then have 4: "\<forall>st\<in>set (states ?r4). ebook st = ebook s" by (rule ebook_kept_toc)
  then have "ebook (fst ?r4) = ebook s" using fst_in_states[of ?r4] by blast
  then have "\<forall>st\<in>set (states (await (flush_at w Toc_return) ?r4)). ebook st = ebook s"
    using 4 by (intro all_states_await) (simp_all add: ebook_flushEffects)
  moreover from this have "ebook (fst (await (flush_at w Toc_return) ?r4)) = ebook s"
    using fst_in_states by blast
  ultimately show ?thesis
    unfolding generateEbook_invalid[OF assms False]
    by (simp add: all_states_step fst_step)
qed

subsection \<open>The last chapter\<close>

lemma chapter_loop_append:
  "chapter_loop w topic n i (xs @ ys) acc r =
     chapter_loop w topic n (i + length xs) ys
       (fst (chapter_loop w topic n i xs acc r)) (snd (chapter_loop w topic n i xs acc r))"
proof (induction xs arbitrary: i acc r)
  case Nil
  then show ?case by simp
next
  case (Cons c xs)
  show ?case by (simp add: Let_def split_beta Cons.IH)
qed

lemma genAI_loop: "genAI (fst (snd (chapter_loop w topic n i chs acc r))) = genAI (fst r)"
proof (induction chs arbitrary: i acc r)
  case Nil
  then show ?case by simp
next
  case (Cons c chs)
  show ?case
    by (simp add: Let_def split_beta Cons.IH await_def fst_step genAI_flushEffects
        genAI_chapter_call)
qed

lemma failed_call_leaves_error:
  assumes "genAI (fst r)"
  shows "error (fst (snd (generateChapterContent fl Throws topic t ss r))) = Some (chapter_failed t)
     \<and> effectDirty (fst (snd (generateChapterContent fl Throws topic t ss r)))"
  using assms
  by (cases fl)
     (simp_all add: generateChapterContent_def Let_def log_call_def step_def await_def
       set_error_def flushEffects_def serviceErrorEffect_def)

lemma unseen_failure_of_last_chapter:
  assumes "genAI (fst r)" and "chs \<noteq> []"
    and "chapter_response w (i + length chs - 1) = Throws"
    and "\<not> flush_at w (Chap_return (i + length chs - 1))"
  shows "error (fst (snd (chapter_loop w topic n i chs acc r))) =
           Some (chapter_failed (title (last chs)))
     \<and> effectDirty (fst (snd (chapter_loop w topic n i chs acc r)))"
proof -
  let ?xs = "butlast chs"
  let ?c = "last chs"
  let ?k = "i + length ?xs"
  let ?pre = "chapter_loop w topic n i ?xs acc r"
  have chs: "chs = ?xs @ [?c]" using assms(2) by simp
  have k: "i + length chs - 1 = ?k" using assms(2) by (cases chs) simp_all
  have g: "genAI (fst (snd ?pre))" using assms(1) by (simp add: genAI_loop)
  let ?r1 = "step (\<lambda>s. s\<lparr>generationProgress := (generationProgress s)\<lparr>current := ?k + 1,
                      message := chapter_message ?k n (title ?c)\<rparr>\<rparr>) (snd ?pre)"
  have g1: "genAI (fst ?r1)" using g by (simp add: fst_step)
  have "snd (chapter_loop w topic n i (?xs @ [?c]) acc r) =
          snd (generateChapterContent (flush_at w (Chap_call ?k)) Throws topic (title ?c)
                 (sections ?c) ?r1)"
    using assms(3,4) unfolding k
    by (simp add: chapter_loop_append Let_def split_beta await_def)
  then show ?thesis
    using failed_call_leaves_error[OF g1] chs by (simp only:)
qed

lemma late_effect_after_last_chapter:
  assumes "trim (ebookTopic s) \<noteq> []" and "genAI s" and "toc_response w = Returns (Some t)"
    and "toc_chapters t = Some chs" and "chs \<noteq> []"
    and "chapter_response w (length chs - 1) = Throws"
    and "\<not> flush_at w (Chap_return (length chs - 1))"
  shows "ebookState (flushEffects (fst (generateEbook w s))) = Error"
proof -
  let ?r6 = "outline_phase w s (length chs)"
  have g: "genAI (fst ?r6)" using assms(2) by (simp add: genAI_outline_phase)
  have "error (fst (snd (chapter_loop w (trim (ebookTopic s)) (length chs) 0 chs [] ?r6))) =
           Some (chapter_failed (title (last chs)))
     \<and> effectDirty (fst (snd (chapter_loop w (trim (ebookTopic s)) (length chs) 0 chs [] ?r6)))"
    using g assms(5) assms(6,7) by (intro unseen_failure_of_last_chapter) simp_all
  then show ?thesis
    unfolding generateEbook_valid[OF assms(1-5)]
    by (simp add: fst_step flushEffects_def serviceErrorEffect_def truthy_def chapter_failed_def)
qed

lemma seen_chapter_call:
  assumes "genAI (fst r)" and "api = Throws \<longrightarrow> fl'"
  shows "effectDirty (fst (await fl' (snd (generateChapterContent fl api topic t ss r)))) \<longrightarrow>
         error (fst (await fl' (snd (generateChapterContent fl api topic t ss r)))) = None"
  using assms
  by (cases api; cases fl; cases fl')
     (simp_all add: generateChapterContent_def Let_def log_call_def step_def await_def
       set_error_def flushEffects_def serviceErrorEffect_def)

lemma seen_last_chapter:
  assumes "genAI (fst r)" and "chs \<noteq> []"
    and "chapter_response w (i + length chs - 1) = Throws \<longrightarrow>
           flush_at w (Chap_return (i + length chs - 1))"
  shows "effectDirty (fst (snd (chapter_loop w topic n i chs acc r))) \<longrightarrow>
         error (fst (snd (chapter_loop w topic n i chs acc r))) = None"
proof -
  let ?xs = "butlast chs"
  let ?c = "last chs"
  let ?k = "i + length ?xs"
  let ?pre = "chapter_loop w topic n i ?xs acc r"
  have chs: "chs = ?xs @ [?c]" using assms(2) by simp
  have k: "i + length chs - 1 = ?k" using assms(2) by (cases chs) simp_all
  have g: "genAI (fst (snd ?pre))" using assms(1) by (simp add: genAI_loop)
  let ?r1 = "step (\<lambda>s. s\<lparr>generationProgress := (generationProgress s)\<lparr>current := ?k + 1,
                      message := chapter_message ?k n (title ?c)\<rparr>\<rparr>) (snd ?pre)"
  let ?r3 = "await (flush_at w (Chap_return ?k))
               (snd (generateChapterContent (flush_at w (Chap_call ?k)) (chapter_response w ?k)
                       topic (title ?c) (sections ?c) ?r1))"
  have g1: "genAI (fst ?r1)" using g by (simp add: fst_step)
  have f: "chapter_response w ?k = Throws \<longrightarrow> flush_at w (Chap_return ?k)"
    using assms(3) unfolding k .
  have "snd (chapter_loop w topic n i (?xs @ [?c]) acc r) = ?r3"
    by (simp add: chapter_loop_append Let_def split_beta)
  moreover have "effectDirty (fst ?r3) \<longrightarrow> error (fst ?r3) = None"
    using g1 f by (rule seen_chapter_call)
  ultimately show ?thesis using chs by (simp only:)
qed

lemma settled_unless_last_chapter_failed:
  assumes "trim (ebookTopic s) \<noteq> []" and "genAI s" and "toc_response w = Returns (Some t)"
    and "toc_chapters t = Some chs" and "chs \<noteq> []"
    and "chapter_response w (length chs - 1) = Throws \<longrightarrow>
           flush_at w (Chap_return (length chs - 1))"
  shows "ebookState (flushEffects (fst (generateEbook w s))) = Completed"
proof -
  let ?r6 = "outline_phase w s (length chs)"
  let ?lp = "chapter_loop w (trim (ebookTopic s)) (length chs) 0 chs [] ?r6"
  have g: "genAI (fst ?r6)" using assms(2) by (simp add: genAI_outline_phase)
  have "effectDirty (fst (snd ?lp)) \<longrightarrow> error (fst (snd ?lp)) = None"
    using g assms(5) assms(6) by (intro seen_last_chapter) simp_all
  then show ?thesis
    unfolding generateEbook_valid[OF assms(1-5)]
    by (auto simp: fst_step flushEffects_def serviceErrorEffect_def truthy_def)
qed

subsection \<open>Whether the effect sees a failed chapter request\<close>









section \<open>The generation state machine\<close>

lemma trim_empty_iff: "trim s = [] \<longleftrightarrow> (\<forall>c \<in> set s. is_space c)"
proof -
  have "(\<forall>x\<in>set (dropWhile is_space s). is_space x) = (\<forall>c\<in>set s. is_space c)"
    by (induction s) auto
  then show ?thesis by (simp add: trim_def dropWhile_eq_Nil_conv)
qed

lemma fresh_facts:
  "trim (ebookTopic fresh) = ''bread baking''" "genAI fresh" "ebookState fresh = Idle"
  "calls fresh = []" "ebook fresh = None"
  "generationProgress fresh = \<lparr>current = 0, total = 0, message = []\<rparr>"
  by (simp_all add: fresh_def initial_def truthy_def trim_def is_space_def)

lemma bread_facts:
  "toc_response stormy = Returns (Some bread_toc)" "toc_response calm = Returns (Some bread_toc)"
  "toc_chapters bread_toc = Some bread_chapters" "bread_chapters \<noteq> []"
  "length bread_chapters = 2" "toc_title bread_toc = ''Bread 101''"
  "toc_response late = Returns (Some bread_toc)"
  "toc_response unnoticed = Returns (Some bread_toc)"
  by (simp_all add: stormy_def calm_def late_def unnoticed_def bread_toc_def bread_chapters_def)

text \<open>
  C1, as the code has it.  When the outline request has succeeded, \<^verbatim>\<open>generateEbook\<close>
  returns in the state \<open>Completed\<close> whichever chapter requests throw and wherever the effect
  runs during the call: the book holds one chapter per outline entry, a chapter whose request
  threw has the placeholder as its content, and the other chapters have what the response
  gave for them.  What the state is once the effect has had its run after the return depends
  on the last chapter alone: it is \<open>Error\<close> when the request for the last chapter threw and
  the effect has not run between that call and the return, because the message is then still
  in the error signal; in every other case, whatever happened to the earlier chapters, it
  stays \<open>Completed\<close>.
\<close>

theorem chapter_failure_is_not_fatal:
  assumes "trim (ebookTopic s) \<noteq> []" and "genAI s" and "toc_response w = Returns (Some t)"
    and "toc_chapters t = Some chs" and "chs \<noteq> []"
  shows "ebookState (fst (generateEbook w s)) = Completed \<and>
    (\<exists>e. ebook (fst (generateEbook w s)) = Some e \<and>
         length (ebook_chapters e) = length chs \<and>
         (\<forall>i<length chs. content (ebook_chapters e ! i) =
            (case chapter_response w i of
               Throws \<Rightarrow> Some chapter_placeholder
             | Returns text \<Rightarrow> text))) \<and>
    ebookState (flushEffects (fst (generateEbook w s))) =
      (if chapter_response w (length chs - 1) = Throws \<and>
          \<not> flush_at w (Chap_return (length chs - 1))
       then Error else Completed)"
proof -
  have g: "genAI (fst (outline_phase w s (length chs)))"
    using assms(2) by (simp add: genAI_outline_phase)
  have 1: "ebookState (fst (generateEbook w s)) = Completed \<and>
    (\<exists>e. ebook (fst (generateEbook w s)) = Some e \<and>
         length (ebook_chapters e) = length chs \<and>
         (\<forall>i<length chs. content (ebook_chapters e ! i) =
            (case chapter_response w i of
               Throws \<Rightarrow> Some chapter_placeholder
             | Returns text \<Rightarrow> text)))"
    unfolding generateEbook_valid[OF assms]
    using content_assembled[of _ chs w 0]
    by (simp add: fst_step chapter_loop_result[OF g] length_assembled chapter_text_def)
  have 2: "ebookState (flushEffects (fst (generateEbook w s))) = Completed"
    if "chapter_response w (length chs - 1) = Throws \<longrightarrow>
          flush_at w (Chap_return (length chs - 1))"
    using assms that by (rule settled_unless_last_chapter_failed)
  have 3: "ebookState (flushEffects (fst (generateEbook w s))) = Error"
    if "chapter_response w (length chs - 1) = Throws"
      "\<not> flush_at w (Chap_return (length chs - 1))"
    using assms that by (rule late_effect_after_last_chapter)
  show ?thesis
  proof (cases "chapter_response w (length chs - 1) = Throws \<and>
      \<not> flush_at w (Chap_return (length chs - 1))")
    case True
    then show ?thesis using 1 3 by simp
  next
    case False
    then have "ebookState (flushEffects (fst (generateEbook w s))) = Completed"
      by (intro 2) blast
    then show ?thesis using 1 False by simp
  qed
qed

theorem chapter_failure_is_not_fatal_witness:
  "chapter_response stormy 1 = Throws \<and>
   ebookState (fst (generateEbook stormy fresh)) = Completed \<and>
   (\<exists>e. ebook (fst (generateEbook stormy fresh)) = Some e \<and>
        length (ebook_chapters e) = 2 \<and>
        content (ebook_chapters e ! 0) = Some section_text \<and>
        content (ebook_chapters e ! 1) = Some chapter_placeholder) \<and>
   ebookState (flushEffects (fst (generateEbook stormy fresh))) = Completed \<and>
   chapter_response unnoticed 0 = Throws \<and>
   ebookState (flushEffects (fst (generateEbook unnoticed fresh))) = Completed \<and>
   ebookState (fst (generateEbook late fresh)) = Completed \<and>
   ebookState (flushEffects (fst (generateEbook late fresh))) = Error"
proof -
  have h: "trim (ebookTopic fresh) \<noteq> []" by (simp add: fresh_facts)
  note c = chapter_failure_is_not_fatal[OF h fresh_facts(2) bread_facts(1) bread_facts(3,4)]
  from c obtain e where e: "ebookState (fst (generateEbook stormy fresh)) = Completed"
    "ebook (fst (generateEbook stormy fresh)) = Some e"
    "length (ebook_chapters e) = length bread_chapters"
    "\<forall>i<length bread_chapters. content (ebook_chapters e ! i) =
        (case chapter_response stormy i of Throws \<Rightarrow> Some chapter_placeholder
         | Returns text \<Rightarrow> text)"
    by blast
  from e(4) have "content (ebook_chapters e ! 0) = Some section_text"
    "content (ebook_chapters e ! 1) = Some chapter_placeholder"
    by (simp_all add: bread_facts stormy_def)
  moreover from c have "ebookState (flushEffects (fst (generateEbook stormy fresh))) = Completed"
    by (simp add: stormy_def bread_facts)
  moreover note u = chapter_failure_is_not_fatal[OF h fresh_facts(2) bread_facts(8) bread_facts(3,4)]
  from u have "ebookState (flushEffects (fst (generateEbook unnoticed fresh))) = Completed"
    by (simp add: unnoticed_def bread_facts)
  moreover note l = chapter_failure_is_not_fatal[OF h fresh_facts(2) bread_facts(7) bread_facts(3,4)]
  from l have "ebookState (fst (generateEbook late fresh)) = Completed"
    "ebookState (flushEffects (fst (generateEbook late fresh))) = Error"
    by (simp_all add: late_def bread_facts)
  ultimately show ?thesis using e(1,2,3) by (simp add: bread_facts stormy_def unnoticed_def)
qed

text \<open>C1 as stated fails: the request for the last chapter throws, \<^verbatim>\<open>generateEbook\<close>
  returns in the state \<open>Completed\<close>, and the effect, which is still scheduled, then sets the
  state to \<open>Error\<close>.\<close>

theorem late_effect_counterexample:
  "chapter_response late 1 = Throws \<and>
   ebookState (fst (generateEbook late fresh)) = Completed \<and>
   ebookState (flushEffects (fst (generateEbook late fresh))) = Error"
  by code_simp

text \<open>
  C2, as the code has it.  While the state is \<open>Generating\<close>, a provider call that fails
  writes a message to the error signal; the write schedules the effect, and the effect, run
  on the state that call leaves behind, sets the state to \<open>Error\<close>.  This holds for the
  chapter request and for the outline request, whether or not the effect also ran while the
  request was pending.
\<close>

theorem provider_error_forces_error_state:
  assumes "genAI (fst r)" and "ebookState (fst r) = Generating"
  shows "error (fst (snd (generateChapterContent fl Throws topic chapterTitle sects r)))
           = Some (chapter_failed chapterTitle) \<and>
         effectDirty (fst (snd (generateChapterContent fl Throws topic chapterTitle sects r))) \<and>
         ebookState (flushEffects
           (fst (snd (generateChapterContent fl Throws topic chapterTitle sects r)))) = Error \<and>
         error (fst (snd (generateTableOfContents fl Throws topic r))) = Some toc_failed \<and>
         effectDirty (fst (snd (generateTableOfContents fl Throws topic r))) \<and>
         ebookState (flushEffects (fst (snd (generateTableOfContents fl Throws topic r)))) = Error"
  using assms
  by (cases fl)
     (simp_all add: generateChapterContent_def generateTableOfContents_def Let_def log_call_def
       step_def await_def set_error_def flushEffects_def serviceErrorEffect_def truthy_def
       chapter_failed_def toc_failed_def)

theorem provider_error_forces_error_state_witness:
  "genAI (fst busy) \<and> ebookState (fst busy) = Generating \<and>
   ebookState (flushEffects
     (fst (snd (generateChapterContent False Throws ''bread baking'' ''Dough''
                  [''hydration'', ''kneading''] busy)))) = Error \<and>
   ebookState (flushEffects
     (fst (snd (generateTableOfContents False Throws ''bread baking'' busy)))) = Error"
proof -
  have h: "genAI (fst busy)" "ebookState (fst busy) = Generating"
    by (simp_all add: busy_def fresh_facts)
  from provider_error_forces_error_state[OF h] h show ?thesis by simp
qed

text \<open>C2 as stated fails: the request for the first chapter throws while the state is
  \<open>Generating\<close>, the call for the second chapter resets the error signal before the effect
  runs, and the state never becomes \<open>Error\<close>, neither during the call nor when the effect runs
  after it.\<close>

theorem unnoticed_failure_counterexample:
  "(\<exists>st\<in>set (states (generateEbook unnoticed fresh)).
      ebookState st = Generating \<and> error st = Some (chapter_failed ''Intro'')) \<and>
   Error \<notin> set (map ebookState (states (generateEbook unnoticed fresh))) \<and>
   ebookState (flushEffects (fst (generateEbook unnoticed fresh))) = Completed"
  by code_simp

text \<open>
  C3.  When the topic is empty or consists of white space only, \<^verbatim>\<open>generateEbook\<close> makes
  two writes, the validation message and the state \<open>Error\<close>, and nothing else: no state of
  the run has another call of the provider, another progress value, another provider error
  or another book than the state it started from.
\<close>

theorem blank_topic_is_rejected:
  assumes "\<forall>c\<in>set (ebookTopic s). is_space c"
  shows "states (generateEbook w s) =
           [s, s\<lparr>componentError := Some ''Please provide a topic for your ebook.''\<rparr>,
            s\<lparr>componentError := Some ''Please provide a topic for your ebook.'',
              ebookState := Error\<rparr>] \<and>
         ebookState (fst (generateEbook w s)) = Error \<and>
         componentError (fst (generateEbook w s)) = Some ''Please provide a topic for your ebook.'' \<and>
         calls (fst (generateEbook w s)) = calls s \<and>
         generationProgress (fst (generateEbook w s)) = generationProgress s \<and>
         error (fst (generateEbook w s)) = error s \<and>
         ebook (fst (generateEbook w s)) = ebook s"
proof -
  have "trim (ebookTopic s) = []" using assms by (simp add: trim_empty_iff)
  then show ?thesis by (simp add: generateEbook_def step_def states_def)
qed

theorem blank_topic_is_rejected_witness:
  "ebookTopic blank = [CHR '' '', CHR 0x09, CHR 0x0A] \<and>
   ebookState (fst (generateEbook calm blank)) = Error \<and>
   calls (fst (generateEbook calm blank)) = [] \<and>
   current (generationProgress (fst (generateEbook calm blank))) = 0"
proof -
  have h: "\<forall>c\<in>set (ebookTopic blank). is_space c"
    by (simp add: blank_def is_space_def)
  from blank_topic_is_rejected[OF h, of calm] show ?thesis
    by (simp add: blank_def initial_def)
qed






text \<open>
  C7.  An export that fails in the state \<open>Completed\<close> leaves the state \<open>Error\<close> with the
  message of the export and does not touch the book; the container is still there, and an
  export that then succeeds leaves the state \<open>Completed\<close> and the same book.
\<close>

theorem failed_export_keeps_ebook:
  assumes "ebookState s = Completed" and "ebookContainer s = Some c"
  shows "ebookState (snd (exportToPdf Throws s)) = Error \<and>
     componentError (snd (exportToPdf Throws s)) =
       Some ''An unexpected error occurred during PDF export.'' \<and>
     ebook (snd (exportToPdf Throws s)) = ebook s \<and>
     ebookContainer (snd (exportToPdf Throws s)) \<noteq> None \<and>
     ebookState (snd (exportToPdf (Returns ()) (snd (exportToPdf Throws s)))) = Completed \<and>
     ebook (snd (exportToPdf (Returns ()) (snd (exportToPdf Throws s)))) = ebook s"
  using assms by (simp add: exportToPdf_def on_container_def Let_def)

theorem failed_export_keeps_ebook_witness:
  "ebookState finished = Completed \<and>
   ebookState (snd (exportToPdf Throws finished)) = Error \<and>
   ebook (snd (exportToPdf Throws finished)) =
     Some \<lparr>ebook_title = ''Bread 101'', ebook_chapters = []\<rparr> \<and>
   ebookState (snd (exportToPdf (Returns ()) (snd (exportToPdf Throws finished)))) = Completed \<and>
   ebook (snd (exportToPdf (Returns ()) (snd (exportToPdf Throws finished)))) =
     Some \<lparr>ebook_title = ''Bread 101'', ebook_chapters = []\<rparr>"
proof -
  have h: "ebookState finished = Completed"
    "ebookContainer finished = Some \<lparr>style_width = ''100%'', exporting_pdf = False\<rparr>"
    "ebook finished = Some \<lparr>ebook_title = ''Bread 101'', ebook_chapters = []\<rparr>"
    by (simp_all add: finished_def)
  from failed_export_keeps_ebook[OF h(1,2)] h show ?thesis by simp
qed

text \<open>
  C8, as the code has it.  \<^verbatim>\<open>generateChapterContent\<close> never passes an exception on to its
  caller; what it returns depends on how the call goes.  Without a client (the API key was
  missing) it returns the empty string and writes nothing but the call log.  When the
  request throws, it returns the fixed placeholder and leaves the message naming the chapter
  in the error signal.  When the request returns, it returns the text of the response
  unchecked and leaves the error signal empty; so its result is \<^verbatim>\<open>undefined\<close> exactly when
  the client exists and the response carries no text.
\<close>

theorem chapter_content_never_throws:
  "(fst (generateChapterContent fl api topic chapterTitle sects r) = None \<longleftrightarrow>
      genAI (fst r) \<and> api = Returns None) \<and>
   (\<not> genAI (fst r) \<longrightarrow>
      generateChapterContent fl api topic chapterTitle sects r =
        (Some [], log_call Chapter_done (log_call (Chapter_call topic chapterTitle sects) r))) \<and>
   (genAI (fst r) \<and> api = Throws \<longrightarrow>
      fst (generateChapterContent fl api topic chapterTitle sects r) = Some chapter_placeholder \<and>
      error (fst (snd (generateChapterContent fl api topic chapterTitle sects r))) =
        Some (chapter_failed chapterTitle)) \<and>
   (\<forall>x. genAI (fst r) \<and> api = Returns x \<longrightarrow>
      fst (generateChapterContent fl api topic chapterTitle sects r) = x \<and>
      error (fst (snd (generateChapterContent fl api topic chapterTitle sects r))) = None) \<and>
   calls (fst (snd (generateChapterContent fl api topic chapterTitle sects r))) =
     calls (fst r) @ [Chapter_call topic chapterTitle sects, Chapter_done]"
proof (cases "genAI (fst r)")
  case False
  then show ?thesis
    by (simp add: generateChapterContent_def Let_def fst_log_call)
next
  case True
  have ne: "error (flushEffects st) = error st" for st
    by (simp add: flushEffects_def serviceErrorEffect_def)
  have nc: "calls (flushEffects st) = calls st" "calls (set_error v st) = calls st" for st v
    by (simp_all add: flushEffects_def serviceErrorEffect_def set_error_def)
  show ?thesis
  proof (cases api)
    case Throws
    with True show ?thesis
      by (cases fl)
         (simp_all add: generateChapterContent_def Let_def fst_log_call fst_step await_def
           error_set_error nc)
  next
    case (Returns x)
    with True show ?thesis
      by (cases fl)
         (simp_all add: generateChapterContent_def Let_def fst_log_call fst_step await_def
           error_set_error ne nc)
  qed
qed

theorem chapter_content_never_throws_witness:
  "genAI (fst busy) \<and>
   fst (generateChapterContent True Throws ''bread baking'' ''Dough''
          [''hydration'', ''kneading''] busy) = Some chapter_placeholder \<and>
   error (fst (snd (generateChapterContent True Throws ''bread baking'' ''Dough''
          [''hydration'', ''kneading''] busy))) = Some (chapter_failed ''Dough'') \<and>
   fst (generateChapterContent True (Returns (Some section_text)) ''bread baking'' ''Dough''
          [''hydration'', ''kneading''] busy) = Some section_text \<and>
   calls (fst (snd (generateChapterContent True Throws ''bread baking'' ''Dough''
          [''hydration'', ''kneading''] busy))) =
     [Chapter_call ''bread baking'' ''Dough'' [''hydration'', ''kneading''], Chapter_done]"
proof -
  have h: "genAI (fst busy)" "calls (fst busy) = []"
    by (simp_all add: busy_def fresh_facts)
  from chapter_content_never_throws[of True Throws "''bread baking''" "''Dough''"
      "[''hydration'', ''kneading'']" busy]
    chapter_content_never_throws[of True "Returns (Some section_text)" "''bread baking''"
      "''Dough''" "[''hydration'', ''kneading'']" busy] h
  show ?thesis by simp
qed

text \<open>C8 as stated fails twice.  Without credentials the result is the empty string, not
  the placeholder; and with a client, a response that carries no text makes the result
  \<^verbatim>\<open>undefined\<close>.\<close>

theorem missing_credentials_counterexample:
  "\<not> genAI (initial None) \<and>
   fst (generateChapterContent False Throws ''bread baking'' ''Intro'' [''history'']
          (initial None, [])) = Some [] \<and>
   fst (generateChapterContent False Throws ''bread baking'' ''Intro'' [''history'']
          (initial None, [])) \<noteq> Some chapter_placeholder \<and>
   genAI fresh \<and>
   fst (generateChapterContent False (Returns None) ''bread baking'' ''Intro'' [''history'']
          (fresh, [])) = None"
  by (simp add: generateChapterContent_def Let_def log_call_def step_def await_def
      initial_def fresh_def truthy_def chapter_placeholder_def)

text \<open>
  C9.  A run that does not get a usable outline (blank topic, no client, failed request,
  no outline, no chapter list or an empty one) leaves the book as it was in every state it
  passes through.  A run that gets one writes the book once: its last two states hold the new
  book, every earlier state holds the old one, and in the last two states every chapter
  call has completed.
\<close>

theorem ebook_written_once_at_the_end:
  "(usable_outline w s = None \<longrightarrow>
      (\<forall>st\<in>set (states (generateEbook w s)). ebook st = ebook s)) \<and>
   (\<forall>t chs. usable_outline w s = Some (t, chs) \<longrightarrow>
      (\<exists>pre a b. states (generateEbook w s) = pre @ [a, b] \<and>
         (\<forall>st\<in>set pre. ebook st = ebook s) \<and>
         ebook a = ebook b \<and> b = fst (generateEbook w s) \<and>
         (\<exists>e. ebook b = Some e \<and> length (ebook_chapters e) = length chs) \<and>
         calls a = calls b \<and>
         calls b = calls s @ [Outline_call (trim (ebookTopic s)), Outline_done] @
           concat (map (\<lambda>c. [Chapter_call (trim (ebookTopic s)) (title c) (sections c),
                              Chapter_done]) chs)))"
proof (intro conjI allI impI)
  assume "usable_outline w s = None"
  then show "\<forall>st\<in>set (states (generateEbook w s)). ebook st = ebook s"
    by (rule ebook_kept_invalid)
next
  fix t chs assume "usable_outline w s = Some (t, chs)"
  then have h: "trim (ebookTopic s) \<noteq> []" "genAI s" "toc_response w = Returns (Some t)"
    "toc_chapters t = Some chs" "chs \<noteq> []"
    by (simp_all add: usable_outline_Some)
  let ?r6 = "outline_phase w s (length chs)"
  let ?lp = "chapter_loop w (trim (ebookTopic s)) (length chs) 0 chs [] ?r6"
  let ?f = "\<lambda>st. st\<lparr>ebook := Some \<lparr>ebook_title = toc_title t, ebook_chapters = fst ?lp\<rparr>\<rparr>"
  let ?a = "?f (fst (snd ?lp))"
  let ?b = "?a\<lparr>ebookState := Completed\<rparr>"
  have g: "genAI (fst ?r6)" using h(2) by (simp add: genAI_outline_phase)
  have eq: "generateEbook w s = step (\<lambda>st. st\<lparr>ebookState := Completed\<rparr>) (step ?f (snd ?lp))"
    by (rule generateEbook_valid[OF h])
  have st: "states (generateEbook w s) = states (snd ?lp) @ [?a, ?b]"
    unfolding eq by (simp add: states_step fst_step)
  have pre: "\<forall>st\<in>set (states (snd ?lp)). ebook st = ebook s"
    by (intro ebook_kept_invariant ebook_kept_outline_phase)
  show "\<exists>pre a b. states (generateEbook w s) = pre @ [a, b] \<and>
         (\<forall>st\<in>set pre. ebook st = ebook s) \<and>
         ebook a = ebook b \<and> b = fst (generateEbook w s) \<and>
         (\<exists>e. ebook b = Some e \<and> length (ebook_chapters e) = length chs) \<and>
         calls a = calls b \<and>
         calls b = calls s @ [Outline_call (trim (ebookTopic s)), Outline_done] @
           concat (map (\<lambda>c. [Chapter_call (trim (ebookTopic s)) (title c) (sections c),
                              Chapter_done]) chs)"
    apply (rule exI[of _ "states (snd ?lp)"], rule exI[of _ ?a], rule exI[of _ ?b])
    using st pre
    by (simp add: eq fst_step chapter_loop_result[OF g] length_assembled calls_loop
        calls_outline_phase chapter_events_def)
qed

theorem ebook_written_once_at_the_end_witness:
  "usable_outline no_outline finished = None \<and>
   ebook (fst (generateEbook no_outline finished)) =
     Some \<lparr>ebook_title = ''Bread 101'', ebook_chapters = []\<rparr> \<and>
   usable_outline stormy fresh = Some (bread_toc, bread_chapters) \<and>
   (\<exists>e. ebook (fst (generateEbook stormy fresh)) = Some e \<and> length (ebook_chapters e) = 2)"
proof -
  have h1: "usable_outline no_outline finished = None"
    by (simp add: usable_outline_def no_outline_def)
  have h2: "usable_outline stormy fresh = Some (bread_toc, bread_chapters)"
    by (simp add: usable_outline_Some fresh_facts bread_facts)
  have e: "ebook finished = Some \<lparr>ebook_title = ''Bread 101'', ebook_chapters = []\<rparr>"
    by (simp add: finished_def)
  have "ebook (fst (generateEbook no_outline finished)) = ebook finished"
    using ebook_written_once_at_the_end[of no_outline finished] h1
      fst_in_states[of "generateEbook no_outline finished"] by blast
  moreover have "\<exists>e. ebook (fst (generateEbook stormy fresh)) = Some e \<and>
      length (ebook_chapters e) = 2"
    using ebook_written_once_at_the_end[of stormy fresh] h2 bread_facts(5) by metis
  ultimately show ?thesis using h1 h2 e by simp
qed

section \<open>The substitutions of parseMarkdown\<close>

lemma starts_with_obtain:
  assumes "starts_with p s"
  obtains t where "s = p @ t"
  using assms by (metis append_take_drop_id starts_with_def)

lemma starts_with_append [simp]: "starts_with p (p @ t)"
  by (simp add: starts_with_def)


lemma starts_with_Nil [simp]: "starts_with [] s"
  by (simp add: starts_with_def)


lemma lazy_until_split: "lazy_until d s = Some (captured, rest) \<Longrightarrow> s = captured @ d @ rest"
proof (induction s arbitrary: captured)
  case Nil
  then show ?case by (simp split: if_splits)
next
  case (Cons c cs)
  show ?case
  proof (cases "starts_with d (c # cs)")
    case True
    then obtain t where t: "c # cs = d @ t" by (rule starts_with_obtain)
    from Cons.prems True have "captured = []" "rest = drop (length d) (c # cs)"
      by simp_all
    then show ?thesis by (simp add: t)
  next
    case False
    with Cons.prems obtain cap where
      "lazy_until d cs = Some (cap, rest)" "captured = c # cap"
      by (auto split: if_splits option.splits)
    then show ?thesis using Cons.IH[of cap] by simp
  qed
qed

lemma greedy_until_split: "greedy_until d s = Some (captured, rest) \<Longrightarrow> s = captured @ d @ rest"
proof (induction s arbitrary: captured)
  case Nil
  then show ?case by (simp split: if_splits)
next
  case (Cons c cs)
  show ?case
  proof (cases "greedy_until d cs")
    case None
    with Cons.prems have sw: "starts_with d (c # cs)" and c: "captured = []"
      and r: "rest = drop (length d) (c # cs)"
      by (auto split: if_splits)
    from sw obtain t where "c # cs = d @ t" by (rule starts_with_obtain)
    then show ?thesis using c r by simp
  next
    case (Some a)
    then show ?thesis using Cons by (cases a) auto
  qed
qed














subsection \<open>Every rule consumes at least one character\<close>

text \<open>So the test in \<open>gsub\<close> that the rest is shorter than the subject never fails for the
  rules of \<^verbatim>\<open>parseMarkdown\<close>.\<close>

lemma line_rule_consumes:
  assumes "line_rule p opening closing bol s = Some (out, rest)" and "p \<noteq> []"
  shows "length rest < length s"
proof -
  from assms(1) have sw: "starts_with p s"
    and r: "rest = dropWhile (\<lambda>c. \<not> is_line_terminator c) (drop (length p) s)"
    by (auto simp: line_rule_def line_rest_def split: if_splits)
  from sw obtain t where t: "s = p @ t" by (rule starts_with_obtain)
  have "length rest \<le> length t" by (simp add: r t length_dropWhile_le)
  then show ?thesis using assms(2) by (cases p) (simp_all add: t)
qed

lemma span_rule_consumes:
  assumes "span_rule d opening closing bol s = Some (out, rest)" and "d \<noteq> []"
  shows "length rest < length s"
proof -
  from assms(1) obtain captured where sw: "starts_with d s"
    and l: "lazy_until d (drop (length d) s) = Some (captured, rest)"
    by (auto simp: span_rule_def split: if_splits option.splits)
  from sw obtain t where t: "s = d @ t" by (rule starts_with_obtain)
  have "t = captured @ d @ rest" using lazy_until_split[OF l] t by simp
  then show ?thesis using assms(2) by (cases d) (simp_all add: t)
qed

lemma code_rule_consumes:
  assumes "code_rule opening closing bol s = Some (out, rest)"
  shows "length rest < length s"
proof -
  from assms(1) obtain cs where s: "s = CHR 0x60 # cs"
    and r: "rest = tl (dropWhile (\<lambda>x. x \<noteq> CHR 0x60) cs)"
    by (cases s) (auto simp: code_rule_def Let_def split: if_splits)
  have "length rest \<le> length cs"
    using length_dropWhile_le[of "\<lambda>x. x \<noteq> CHR 0x60" cs] by (simp add: r)
  then show ?thesis by (simp add: s)
qed

lemma literal_rule_consumes:
  assumes "literal_rule p repl bol s = Some (out, rest)" and "p \<noteq> []"
  shows "length rest < length s"
proof -
  from assms(1) have sw: "starts_with p s" and r: "rest = drop (length p) s"
    by (auto simp: literal_rule_def split: if_splits)
  from sw obtain t where t: "s = p @ t" by (rule starts_with_obtain)
  show ?thesis using assms(2) by (cases p) (simp_all add: r t)
qed

lemma item_rule_consumes:
  assumes "item_rule bol s = Some (out, rest)"
  shows "length rest < length s"
proof -
  from assms(1) obtain marker body where
    d: "dropWhile is_space s = marker # CHR '' '' # body"
    and r: "rest = dropWhile (\<lambda>c. \<not> is_line_terminator c) body"
    by (auto simp: item_rule_def line_rest_def split: list.splits if_splits)
  have "length rest \<le> length body" by (simp add: r length_dropWhile_le)
  moreover have "length (dropWhile is_space s) \<le> length s" by (rule length_dropWhile_le)
  ultimately show ?thesis by (simp add: d)
qed

lemma list_rule_consumes:
  assumes "list_rule bol s = Some (out, rest)"
  shows "length rest < length s"
proof -
  from assms(1) obtain captured where sw: "starts_with ''<li>'' s"
    and g: "greedy_until ''</li>'' (drop 4 s) = Some (captured, rest)"
    by (auto simp: list_rule_def split: if_splits option.splits)
  from sw obtain t where t: "s = ''<li>'' @ t" by (rule starts_with_obtain)
  have "t = captured @ ''</li>'' @ rest" using greedy_until_split[OF g] t by simp
  then show ?thesis by (simp add: t)
qed

lemma merge_rule_consumes:
  assumes "merge_rule bol s = Some (out, rest)"
  shows "length rest < length s"
proof -
  let ?t = "dropWhile is_space (drop 5 s)"
  from assms(1) have r: "rest = drop 4 ?t" and sw: "starts_with ''</ul>'' s"
    by (auto simp: merge_rule_def Let_def split: if_splits)
  from sw obtain t where t: "s = ''</ul>'' @ t" by (rule starts_with_obtain)
  have "length rest \<le> length ?t" by (simp add: r)
  moreover have "length ?t \<le> length (drop 5 s)" by (rule length_dropWhile_le)
  ultimately show ?thesis by (simp add: t)
qed


subsection \<open>A line rule works line by line\<close>























subsection \<open>Text without emphasis, code and list markers\<close>


























subsection \<open>The line break rules work piece by piece\<close>













section \<open>The renderer\<close>

text \<open>
  C6, evaluated.  For the two-item input \<^verbatim>\<open>"- a\n- b"\<close> the result has one list
  container and a single list item, whose content is \<^verbatim>\<open>a<br>- b\<close>: the line feed has become
  \<^verbatim>\<open><br>\<close> before the list rule runs, so that its \<^verbatim>\<open>(.*)\<close> takes in the second item.
\<close>

theorem two_item_list_yields_one_item:
  "parseMarkdown (''- a'' @ [CHR 0x0A] @ ''- b'') = p_open @ ''<ul><li>a<br>- b</li></ul></p>'' \<and>
   occurrences ''<ul>'' (parseMarkdown (''- a'' @ [CHR 0x0A] @ ''- b'')) = 1 \<and>
   occurrences ''<li>'' (parseMarkdown (''- a'' @ [CHR 0x0A] @ ''- b'')) = 1"
  by code_simp




end
